theory Spec2Isabelle
  imports Main "HOL-Library.Word"
begin

section \<open>bread: a single-line editor over a gap buffer\<close>

text \<open>
  The development follows \<^verbatim>\<open>src/bread.c\<close>. A C \<^verbatim>\<open>char\<close> is a byte; the value
  an \<^verbatim>\<open>int\<close> receives from a \<^verbatim>\<open>char\<close> is its two's complement reading (plain
  \<^verbatim>\<open>char\<close> is taken to be signed, as it is on x86; the keys the loop tells apart
  are the same with an unsigned one), and an \<^verbatim>\<open>int\<close> stored into a \<^verbatim>\<open>char\<close> keeps
  its low eight bits.

  Pointers into the line buffer are offsets from \<^verbatim>\<open>b->start\<close>, so \<^verbatim>\<open>start\<close> is
  offset 0 and \<^verbatim>\<open>end\<close> is the size of the allocation. Pointer and \<^verbatim>\<open>int\<close>
  arithmetic is arithmetic on \<open>int\<close>: the values are offsets inside the allocation
  or next to it, far from the limits of the machine types. A read or write of memory
  outside the allocation has no defined behaviour in C; the model returns the fault
  \<open>OutOfBounds\<close> there.
\<close>

type_synonym byte = "8 word"

datatype fault = OutOfBounds

definition char_int :: "byte \<Rightarrow> int" where
  "char_int c = sint c"

definition int_char :: "int \<Rightarrow> byte" where
  "int_char k = word_of_int k"

subsection \<open>Keys\<close>

definition CTRL_KEY :: "int \<Rightarrow> int" where
  "CTRL_KEY k = k - 96"

definition KEY_LOWEST :: int where "KEY_LOWEST = 256"
definition KEY_NOKEY :: int where "KEY_NOKEY = 257"
definition KEY_UP :: int where "KEY_UP = 258"
definition KEY_DOWN :: int where "KEY_DOWN = 259"
definition KEY_RIGHT :: int where "KEY_RIGHT = 260"
definition KEY_LEFT :: int where "KEY_LEFT = 261"

subsection \<open>The gap buffer\<close>

text \<open>
  \<^verbatim>\<open>struct buffer\<close>: \<open>mem\<close> is the content of the allocation at \<^verbatim>\<open>start\<close>;
  \<open>gap\<close>, \<open>post\<close> and \<open>endp\<close> are the pointers \<^verbatim>\<open>gap\<close>, \<^verbatim>\<open>post\<close> and \<^verbatim>\<open>end\<close>
  as offsets from \<^verbatim>\<open>start\<close>; \<open>relpos\<close> is the pending cursor offset.
\<close>

record buffer =
  mem :: "byte list"
  gap :: int
  post :: int
  endp :: int
  relpos :: int

text \<open>
  The allocator gives no guarantee about the content of fresh memory: a successful
  \<^verbatim>\<open>malloc\<close> or \<^verbatim>\<open>realloc\<close> answers with a function that says which byte each
  fresh cell holds; a failed one answers \<open>None\<close>.
\<close>

type_synonym alloc = "(nat \<Rightarrow> byte) option"

definition malloc :: "nat \<Rightarrow> alloc \<Rightarrow> byte list option" where
  "malloc n a = (case a of None \<Rightarrow> None | Some fill \<Rightarrow> Some (map fill [0..<n]))"

definition realloc :: "byte list \<Rightarrow> nat \<Rightarrow> alloc \<Rightarrow> byte list option" where
  "realloc old n a =
     (case a of None \<Rightarrow> None
      | Some fill \<Rightarrow> Some (map (\<lambda>i. if i < length old then old ! i else fill i) [0..<n]))"

definition memmove :: "byte list \<Rightarrow> int \<Rightarrow> int \<Rightarrow> int \<Rightarrow> fault + byte list" where
  "memmove m dst src n =
     (if 0 \<le> n \<and> 0 \<le> dst \<and> dst + n \<le> int (length m) \<and> 0 \<le> src \<and> src + n \<le> int (length m)
      then Inr (take (nat dst) m @ take (nat n) (drop (nat src) m) @ drop (nat (dst + n)) m)
      else Inl OutOfBounds)"

definition buffer_init :: "nat \<Rightarrow> alloc \<Rightarrow> buffer option" where
  "buffer_init init_size a =
     (case malloc init_size a of
        None \<Rightarrow> None
      | Some m \<Rightarrow>
          Some \<lparr>mem = m, gap = 0, post = int init_size, endp = int init_size, relpos = 0\<rparr>)"

definition buffer_forwards :: "buffer \<Rightarrow> buffer" where
  "buffer_forwards b =
     (if post b + relpos b < endp b then b\<lparr>relpos := relpos b + 1\<rparr> else b)"

definition buffer_backwards :: "buffer \<Rightarrow> buffer" where
  "buffer_backwards b =
     (if gap b + relpos b > 0 then b\<lparr>relpos := relpos b - 1\<rparr> else b)"

definition buffer_move_gap :: "buffer \<Rightarrow> fault + buffer" where
  "buffer_move_gap b =
     (if relpos b = 0 then Inr b
      else if relpos b < 0 then
        (let g = gap b + relpos b; p = post b + relpos b in
         case memmove (mem b) p g (- relpos b) of
           Inl e \<Rightarrow> Inl e
         | Inr m \<Rightarrow> Inr (b\<lparr>mem := m, gap := g, post := p, relpos := 0\<rparr>))
      else
        (case memmove (mem b) (gap b) (post b) (relpos b) of
           Inl e \<Rightarrow> Inl e
         | Inr m \<Rightarrow>
             Inr (b\<lparr>mem := m, gap := gap b + relpos b, post := post b + relpos b,
                    relpos := 0\<rparr>)))"

text \<open>The store \<^verbatim>\<open>*b->gap++ = ch\<close>.\<close>

definition store_ch :: "buffer \<Rightarrow> byte \<Rightarrow> fault + buffer" where
  "store_ch b ch =
     (if 0 \<le> gap b \<and> gap b < int (length (mem b))
      then Inr (b\<lparr>mem := (mem b)[nat (gap b) := ch], gap := gap b + 1\<rparr>)
      else Inl OutOfBounds)"

text \<open>
  \<^verbatim>\<open>buffer_insertch\<close> returns its \<^verbatim>\<open>bool\<close> together with the buffer it leaves
  behind. The first argument is the answer of \<^verbatim>\<open>realloc\<close>, should the call need it.
\<close>

definition buffer_insertch :: "alloc \<Rightarrow> buffer \<Rightarrow> byte \<Rightarrow> fault + (bool \<times> buffer)" where
  "buffer_insertch a b ch =
     (case buffer_move_gap b of
        Inl e \<Rightarrow> Inl e
      | Inr b1 \<Rightarrow>
          if gap b1 = post b1 then
            (let newsize = (endp b1 - 0) * 2 in
             case realloc (mem b1) (nat newsize) a of
               None \<Rightarrow> Inr (False, b1)
             | Some newbuf \<Rightarrow>
                 (case store_ch (b1\<lparr>mem := newbuf, gap := gap b1 - 0,
                                    post := newsize + (endp b1 - post b1),
                                    endp := newsize\<rparr>) ch of
                    Inl e \<Rightarrow> Inl e
                  | Inr b2 \<Rightarrow> Inr (True, b2)))
          else
            (case store_ch b1 ch of
               Inl e \<Rightarrow> Inl e
             | Inr b2 \<Rightarrow> Inr (True, b2)))"

definition buffer_delete_forwards :: "buffer \<Rightarrow> fault + buffer" where
  "buffer_delete_forwards b =
     (case buffer_move_gap b of
        Inl e \<Rightarrow> Inl e
      | Inr b1 \<Rightarrow> Inr (if post b1 < endp b1 then b1\<lparr>post := post b1 + 1\<rparr> else b1))"

definition buffer_delete_backwards :: "buffer \<Rightarrow> fault + buffer" where
  "buffer_delete_backwards b =
     (case buffer_move_gap b of
        Inl e \<Rightarrow> Inl e
      | Inr b1 \<Rightarrow> Inr (if gap b1 > 0 then b1\<lparr>gap := gap b1 - 1\<rparr> else b1))"

text \<open>
  What the buffer stands for: the bytes before the gap, the bytes from \<open>post\<close> to
  \<open>endp\<close>, the line they make, and the cursor: the gap's offset plus the pending
  offset.
\<close>

definition pre_run :: "buffer \<Rightarrow> byte list" where
  "pre_run b = take (nat (gap b)) (mem b)"

definition post_run :: "buffer \<Rightarrow> byte list" where
  "post_run b = drop (nat (post b)) (take (nat (endp b)) (mem b))"

definition line_of :: "buffer \<Rightarrow> byte list" where
  "line_of b = pre_run b @ post_run b"

definition cursor :: "buffer \<Rightarrow> int" where
  "cursor b = gap b + relpos b"

text \<open>
  The states in which every pointer is inside the allocation, the gap is not
  negative and the pending offset keeps the cursor inside the text.
\<close>

definition well_formed :: "buffer \<Rightarrow> bool" where
  "well_formed b \<longleftrightarrow>
     int (length (mem b)) = endp b \<and> 0 < endp b \<and>
     0 \<le> gap b \<and> gap b \<le> post b \<and> post b \<le> endp b \<and>
     0 \<le> gap b + relpos b \<and> post b + relpos b \<le> endp b"

subsection \<open>The terminal\<close>

text \<open>
  The terminal is seen through the calls made on it, in order, each with its
  success: reading the attributes, writing the raw attributes, writing the saved
  attributes back.
\<close>

datatype term_call = TcGetAttr bool | TcSetRaw bool | TcSetOld bool

definition setup_terminal :: "bool \<Rightarrow> bool \<Rightarrow> bool \<times> term_call list" where
  "setup_terminal get_ok set_ok =
     (if \<not> get_ok then (False, [TcGetAttr False])
      else if \<not> set_ok then (False, [TcGetAttr True, TcSetRaw False])
      else (True, [TcGetAttr True, TcSetRaw True]))"

definition restore_terminal :: "bool \<Rightarrow> bool \<times> term_call list" where
  "restore_terminal set_ok =
     (if \<not> set_ok then (False, [TcSetOld False]) else (True, [TcSetOld True]))"

subsection \<open>The key decoder\<close>

text \<open>
  One \<^verbatim>\<open>read\<close> of up to three bytes: it fails, or it delivers the bytes it read
  (none at the end of the input). The array \<^verbatim>\<open>c\<close> of \<^verbatim>\<open>getkey\<close> is not
  initialised: \<open>uninit\<close> is what it holds before the read.
\<close>

datatype read_result = RdErr | Rd "byte list"

fun fill_c :: "byte \<times> byte \<times> byte \<Rightarrow> byte list \<Rightarrow> byte \<times> byte \<times> byte" where
  "fill_c (j0, j1, j2) [] = (j0, j1, j2)"
| "fill_c (j0, j1, j2) [x] = (x, j1, j2)"
| "fill_c (j0, j1, j2) [x, y] = (x, y, j2)"
| "fill_c (j0, j1, j2) (x # y # z # _) = (x, y, z)"

definition getkey :: "byte \<times> byte \<times> byte \<Rightarrow> read_result \<Rightarrow> int" where
  "getkey uninit r =
     (case r of
        RdErr \<Rightarrow> KEY_NOKEY
      | Rd bs \<Rightarrow>
          (let n = min 3 (length bs); (c0, c1, c2) = fill_c uninit bs in
           if n < 3 then char_int c0
           else if \<not> (char_int c0 = 27 \<and> char_int c1 = 91) then char_int c0
           else if char_int c2 = 65 then KEY_UP
           else if char_int c2 = 66 then KEY_DOWN
           else if char_int c2 = 67 then KEY_RIGHT
           else if char_int c2 = 68 then KEY_LEFT
           else KEY_NOKEY))"

subsection \<open>The edit loop\<close>

text \<open>
  The \<^verbatim>\<open>switch\<close> of \<^verbatim>\<open>bread_line\<close>. The result \<open>Inr None\<close> is the failed
  insertion, after which \<^verbatim>\<open>bread_line\<close> returns \<^verbatim>\<open>NULL\<close>.
\<close>

definition apply_key :: "alloc \<Rightarrow> buffer \<Rightarrow> int \<Rightarrow> fault + buffer option" where
  "apply_key a b k =
     (if k = KEY_NOKEY then Inr (Some b)
      else if k = CTRL_KEY 98 \<or> k = KEY_LEFT then Inr (Some (buffer_backwards b))
      else if k = CTRL_KEY 102 \<or> k = KEY_RIGHT then Inr (Some (buffer_forwards b))
      else if k = KEY_UP \<or> k = CTRL_KEY 97 then
        Inr (Some (b\<lparr>relpos := 0 - gap b - relpos b\<rparr>))
      else if k = KEY_DOWN \<or> k = CTRL_KEY 101 then
        Inr (Some (b\<lparr>relpos := endp b - post b\<rparr>))
      else if k = CTRL_KEY 100 then
        (case buffer_delete_forwards b of Inl e \<Rightarrow> Inl e | Inr b' \<Rightarrow> Inr (Some b'))
      else if k = CTRL_KEY 117 then
        Inr (Some (b\<lparr>gap := 0, post := endp b\<rparr>))
      else if k = CTRL_KEY 104 \<or> k = 127 then
        (case buffer_delete_backwards b of Inl e \<Rightarrow> Inl e | Inr b' \<Rightarrow> Inr (Some b'))
      else
        (case buffer_insertch a b (int_char k) of
           Inl e \<Rightarrow> Inl e
         | Inr (ok, b') \<Rightarrow> Inr (if ok then Some b' else None)))"

text \<open>
  The rendering after each key changes nothing in the buffer, and what it writes to
  the output stream is left out; what it reads from the buffer is not. A
  \<^verbatim>\<open>printf\<close> of \<^verbatim>\<open>%.*s\<close> reads bytes from its pointer until it has read as many as
  the precision says or has met a zero byte; a negative precision counts as none
  given, and the read goes on to the first zero byte. The first string is read from
  \<^verbatim>\<open>start\<close> with the precision \<open>gap - start\<close>, the second from \<^verbatim>\<open>post\<close> with the
  precision \<open>end - post\<close>.
\<close>

definition str_read_ok :: "byte list \<Rightarrow> int \<Rightarrow> int \<Rightarrow> bool" where
  "str_read_ok m off prec =
     (prec = 0 \<or>
      (0 \<le> off \<and>
       (0 \<in> set (if prec < 0 then drop (nat off) m else take (nat prec) (drop (nat off) m))
        \<or> (0 \<le> prec \<and> off + prec \<le> int (length m)))))"

definition render_ok :: "buffer \<Rightarrow> bool" where
  "render_ok b \<longleftrightarrow>
     str_read_ok (mem b) 0 (gap b - 0) \<and> str_read_ok (mem b) (post b) (endp b - post b)"

text \<open>
  One turn of the loop takes what the world gives it: the content of the decoder's
  array before the read, the result of the read, and the answer of \<^verbatim>\<open>realloc\<close>.
  The loop ends on the key \<^verbatim>\<open>'\n'\<close> or on a failed insertion; an input that runs
  out leaves it waiting in \<^verbatim>\<open>read\<close>.
\<close>

record tick =
  junk :: "byte \<times> byte \<times> byte"
  rd :: read_result
  grow :: alloc

datatype loop_end = Submit buffer | InsertFailed buffer | Waiting buffer | Crashed

fun edit_loop :: "buffer \<Rightarrow> tick list \<Rightarrow> loop_end" where
  "edit_loop b [] = Waiting b"
| "edit_loop b (t # ts) =
     (let k = getkey (junk t) (rd t) in
      if k = 10 then Submit b
      else
        (case apply_key (grow t) b k of
           Inl e \<Rightarrow> Crashed
         | Inr None \<Rightarrow> InsertFailed b
         | Inr (Some b') \<Rightarrow> if render_ok b' then edit_loop b' ts else Crashed))"

subsection \<open>The session\<close>

definition BREAD_INITIAL_SIZE :: nat where
  "BREAD_INITIAL_SIZE = 64"

record env =
  tcgetattr_ok :: bool
  tcsetattr_raw_ok :: bool
  init_alloc :: alloc
  line_alloc_ok :: bool
  tcsetattr_old_ok :: bool

text \<open>
  What a call of \<^verbatim>\<open>bread_line\<close> comes to: the line, \<^verbatim>\<open>NULL\<close>, still waiting for
  input, or a memory access outside the allocation.
\<close>

datatype outcome = Line "byte list" | Null | Reading buffer | Undefined

text \<open>
  The end of \<^verbatim>\<open>bread_line\<close>, after the loop: the two \<^verbatim>\<open>memcpy\<close> read
  \<open>gap - start\<close> bytes from \<open>start\<close> and \<open>end - post\<close> bytes from \<open>post\<close>.
\<close>

definition finish :: "env \<Rightarrow> buffer \<Rightarrow> outcome \<times> term_call list" where
  "finish e b =
     (let presize = gap b - 0; postsize = endp b - post b in
      if \<not> line_alloc_ok e then (Null, [])
      else if \<not> (0 \<le> presize \<and> presize \<le> int (length (mem b)) \<and>
                  0 \<le> postsize \<and> 0 \<le> post b \<and> post b + postsize \<le> int (length (mem b)))
      then (Undefined, [])
      else
        (let line = take (nat presize) (mem b) @ take (nat postsize) (drop (nat (post b)) (mem b));
             (r, calls) = restore_terminal (tcsetattr_old_ok e)
         in (Line line, calls)))"

definition bread_line :: "env \<Rightarrow> tick list \<Rightarrow> outcome \<times> term_call list" where
  "bread_line e ts =
     (let (ok, calls) = setup_terminal (tcgetattr_ok e) (tcsetattr_raw_ok e) in
      if \<not> ok then (Null, calls)
      else
        (case buffer_init BREAD_INITIAL_SIZE (init_alloc e) of
           None \<Rightarrow> (Null, calls)
         | Some b \<Rightarrow>
             (case edit_loop b ts of
                Crashed \<Rightarrow> (Undefined, calls)
              | Waiting b' \<Rightarrow> (Reading b', calls)
              | InsertFailed b' \<Rightarrow> (Null, calls)
              | Submit b' \<Rightarrow> (let (r, calls') = finish e b' in (r, calls @ calls')))))"

subsection \<open>Counting the restores\<close>

fun restore_calls :: "term_call list \<Rightarrow> nat" where
  "restore_calls [] = 0"
| "restore_calls (TcSetOld ok # cs) = Suc (restore_calls cs)"
| "restore_calls (c # cs) = restore_calls cs"

subsection \<open>A line with a cursor, as a plain string\<close>

text \<open>
  The reference the buffer is compared with: the text and the cursor's offset in it.
  Each edit does what its name says on the string; a move or a delete at a boundary
  does nothing.
\<close>

datatype edit =
  Insert byte | MoveLeft | MoveRight | MoveToStart | MoveToEnd
  | DeleteForward | DeleteBackward | DeleteAll

fun model_edit :: "edit \<Rightarrow> byte list \<times> nat \<Rightarrow> byte list \<times> nat" where
  "model_edit (Insert c) (s, i) = (take i s @ c # drop i s, i + 1)"
| "model_edit MoveLeft (s, i) = (s, if 0 < i then i - 1 else i)"
| "model_edit MoveRight (s, i) = (s, if i < length s then i + 1 else i)"
| "model_edit MoveToStart (s, i) = (s, 0)"
| "model_edit MoveToEnd (s, i) = (s, length s)"
| "model_edit DeleteForward (s, i) = (take i s @ drop (i + 1) s, i)"
| "model_edit DeleteBackward (s, i) =
     (if 0 < i then (take (i - 1) s @ drop i s, i - 1) else (s, i))"
| "model_edit DeleteAll (s, i) = ([], 0)"

definition model_run :: "edit list \<Rightarrow> byte list \<times> nat" where
  "model_run es = fold model_edit es ([], 0)"

text \<open>What the buffer shows of itself: its line and its cursor.\<close>

definition view :: "buffer \<Rightarrow> byte list \<times> nat" where
  "view b = (line_of b, nat (cursor b))"

subsection \<open>Concrete inputs\<close>

text \<open>
  A world in which nothing fails and fresh memory is zero: the allocator, one read
  that delivers the given bytes, the environment of a session, and the bytes a
  terminal sends for each edit.
\<close>

definition zero_fill :: alloc where
  "zero_fill = Some (\<lambda>_. 0)"

definition typed :: "byte list \<Rightarrow> tick" where
  "typed bs = \<lparr>junk = (0, 0, 0), rd = Rd bs, grow = zero_fill\<rparr>"

definition good_env :: env where
  "good_env = \<lparr>tcgetattr_ok = True, tcsetattr_raw_ok = True, init_alloc = zero_fill,
     line_alloc_ok = True, tcsetattr_old_ok = True\<rparr>"

fun tick_of :: "edit \<Rightarrow> tick" where
  "tick_of (Insert c) = typed [c]"
| "tick_of MoveLeft = typed [27, 91, 68]"
| "tick_of MoveRight = typed [27, 91, 67]"
| "tick_of MoveToStart = typed [27, 91, 65]"
| "tick_of MoveToEnd = typed [27, 91, 66]"
| "tick_of DeleteForward = typed [4]"
| "tick_of DeleteBackward = typed [127]"
| "tick_of DeleteAll = typed [21]"

text \<open>Bytes inserted one after the other, every \<^verbatim>\<open>realloc\<close> succeeding.\<close>

fun insert_bytes :: "buffer \<Rightarrow> byte list \<Rightarrow> fault + buffer option" where
  "insert_bytes b [] = Inr (Some b)"
| "insert_bytes b (c # cs) =
     (case buffer_insertch zero_fill b c of
        Inl e \<Rightarrow> Inl e
      | Inr (ok, b') \<Rightarrow> if ok then insert_bytes b' cs else Inr None)"

subsection \<open>Edits that stay clear of the pending offset\<close>

text \<open>
  A byte is a literal when no branch of the loop but the last takes its key. An edit
  is safe in a buffer when it is not one of these: a byte inserted into a full buffer
  with text after the cursor; a move to the start or a delete-all while a pending
  offset is not resolved. A run of edits is safe when each is, in the buffer the
  loop has reached by then.
\<close>

definition literal :: "byte \<Rightarrow> bool" where
  "literal c \<longleftrightarrow> char_int c \<notin> {10, 1, 2, 4, 5, 6, 8, 21, 127}"

fun safe :: "edit \<Rightarrow> buffer \<Rightarrow> bool" where
  "safe (Insert c) b = (literal c \<and> (gap b < post b \<or> post b + relpos b = endp b))"
| "safe MoveToStart b = (relpos b = 0)"
| "safe DeleteAll b = (relpos b = 0)"
| "safe e b = True"

fun safe_run :: "buffer \<Rightarrow> edit list \<Rightarrow> bool" where
  "safe_run b [] = True"
| "safe_run b (e # es) =
     (safe e b \<and> (case edit_loop b [tick_of e] of Waiting b' \<Rightarrow> safe_run b' es | _ \<Rightarrow> False))"

subsection \<open>Buffers the sessions below reach\<close>


definition full_left :: buffer where
  "full_left = \<lparr>mem = replicate 64 97, gap = 64, post = 64, endp = 64, relpos = - 1\<rparr>"

definition grown_wrong :: buffer where
  "grown_wrong =
     \<lparr>mem = replicate 63 97 @ [98] @ replicate 64 0, gap = 64, post = 129, endp = 128,
      relpos = 0\<rparr>"

definition home_pending :: buffer where
  "home_pending =
     \<lparr>mem = [97, 98] @ replicate 62 0, gap = 2, post = 64, endp = 64, relpos = - 1\<rparr>"

definition home_insert :: buffer where
  "home_insert =
     \<lparr>mem = [97, 120] @ replicate 61 0 @ [98], gap = 2, post = 63, endp = 64, relpos = 0\<rparr>"

definition kill_pending :: buffer where
  "kill_pending = \<lparr>mem = 97 # replicate 63 0, gap = 0, post = 64, endp = 64, relpos = - 1\<rparr>"

section \<open>Properties\<close>

subsection \<open>Bytes and keys\<close>

lemma char_int_bounds: "- 128 \<le> char_int c \<and> char_int c < 128"
  using sint_ge [of c] sint_lt [of c] by (simp add: char_int_def)


lemma fill_c_hd: "bs \<noteq> [] \<Longrightarrow> \<exists>c1 c2. fill_c jk bs = (hd bs, c1, c2)"
  by (induction jk bs rule: fill_c.induct) auto

lemma getkey_short:
  assumes "bs \<noteq> []" and "length bs < 3"
  shows "getkey jk (Rd bs) = char_int (hd bs)"
proof -
  from fill_c_hd [OF assms(1)] obtain c1 c2 where "fill_c jk bs = (hd bs, c1, c2)" by blast
  then show ?thesis using assms(2) by (simp add: getkey_def)
qed



lemmas key_defs =
  KEY_NOKEY_def KEY_UP_def KEY_DOWN_def KEY_LEFT_def KEY_RIGHT_def CTRL_KEY_def

lemma getkey_typed1: "getkey (junk (typed [c])) (rd (typed [c])) = char_int c"
  by (simp add: typed_def getkey_def)

lemma getkey_arrows:
  "getkey (junk (typed [27, 91, 65])) (rd (typed [27, 91, 65])) = KEY_UP"
  "getkey (junk (typed [27, 91, 66])) (rd (typed [27, 91, 66])) = KEY_DOWN"
  "getkey (junk (typed [27, 91, 67])) (rd (typed [27, 91, 67])) = KEY_RIGHT"
  "getkey (junk (typed [27, 91, 68])) (rd (typed [27, 91, 68])) = KEY_LEFT"
  by (simp_all add: typed_def getkey_def char_int_def)

lemma char_int_values: "char_int 4 = 4" "char_int 127 = 127" "char_int 21 = 21"
  by (simp_all add: char_int_def)

lemma int_char_char_int: "int_char (char_int c) = c"
  by (simp add: int_char_def char_int_def)

lemma apply_key_literal:
  assumes "literal c"
  shows "apply_key a b (char_int c) =
     (case buffer_insertch a b c of
        Inl e \<Rightarrow> Inl e
      | Inr (ok, b') \<Rightarrow> Inr (if ok then Some b' else None))"
  using assms char_int_bounds [of c]
  by (simp add: apply_key_def literal_def key_defs int_char_char_int)

lemma render_ok_well_formed: "well_formed b \<Longrightarrow> render_ok b"
  by (auto simp: well_formed_def render_ok_def str_read_ok_def)

lemma step_waiting:
  "getkey (junk t) (rd t) = k \<Longrightarrow> k \<noteq> 10 \<Longrightarrow> apply_key (grow t) b k = Inr (Some b')
     \<Longrightarrow> well_formed b' \<Longrightarrow> edit_loop b [t] = Waiting b'"
  by (simp add: render_ok_well_formed)

lemma edit_loop_step:
  "edit_loop b [t] = Waiting b' \<Longrightarrow> edit_loop b (t # ts) = edit_loop b' ts"
  by (auto simp: Let_def split: if_splits sum.splits option.splits)

subsection \<open>The key decoder\<close>




subsection \<open>The terminal and the session\<close>

lemma restore_calls_append: "restore_calls (xs @ ys) = restore_calls xs + restore_calls ys"
  by (induction xs rule: restore_calls.induct) auto

text \<open>
  The saved attributes are written back once when \<^verbatim>\<open>bread_line\<close> returns a line and
  not at all on any other path.
\<close>

lemma restore_only_with_line:
  "restore_calls (snd (bread_line e ts)) = (case fst (bread_line e ts) of Line l \<Rightarrow> 1 | _ \<Rightarrow> 0)"
  by (auto simp: bread_line_def finish_def Let_def setup_terminal_def restore_terminal_def
      restore_calls_append split: prod.splits option.splits loop_end.splits if_splits)

text \<open>
  Claim C2, at the failing inputs. With the terminal put into raw mode, each of the
  three failures returns \<^verbatim>\<open>NULL\<close> and the calls made on the terminal are the two of
  the setup only: the first \<^verbatim>\<open>malloc\<close> fails; the 65th byte needs the buffer to grow
  and \<^verbatim>\<open>realloc\<close> fails; the \<^verbatim>\<open>malloc\<close> of the result fails.
\<close>

theorem failure_paths_leave_raw_mode:
  "bread_line (good_env\<lparr>init_alloc := None\<rparr>) [] = (Null, [TcGetAttr True, TcSetRaw True])
   \<and> bread_line good_env
        (replicate 64 (typed [97]) @ [\<lparr>junk = (0, 0, 0), rd = Rd [97], grow = None\<rparr>])
      = (Null, [TcGetAttr True, TcSetRaw True])
   \<and> bread_line (good_env\<lparr>line_alloc_ok := False\<rparr>) [typed [10]]
      = (Null, [TcGetAttr True, TcSetRaw True])"
  by code_simp

text \<open>
  Claim C8, at the failing input: the keys \<^verbatim>\<open>h\<close>, \<^verbatim>\<open>i\<close> and newline, with a
  terminal on which the write of the saved attributes fails. \<^verbatim>\<open>restore_terminal\<close>
  reports the failure by returning false, as \<^verbatim>\<open>setup_terminal\<close> does and
  \<^verbatim>\<open>bread_line\<close> checks there; here \<^verbatim>\<open>bread_line\<close> drops the value and returns the
  line \<^verbatim>\<open>hi\<close>.
\<close>

theorem restore_failure_is_masked:
  "restore_terminal False = (False, [TcSetOld False])
   \<and> bread_line (good_env\<lparr>tcsetattr_old_ok := False\<rparr>)
        [typed [104], typed [105], typed [10]]
     = (Line [104, 105], [TcGetAttr True, TcSetRaw True, TcSetOld False])"
  by code_simp

text \<open>
  What \<^verbatim>\<open>bread_line\<close> returns is the same whether the restore fails or succeeds.
\<close>

lemma restore_result_is_ignored:
  "fst (restore_terminal False) = False
   \<and> fst (bread_line (e\<lparr>tcsetattr_old_ok := False\<rparr>) ts)
     = fst (bread_line (e\<lparr>tcsetattr_old_ok := True\<rparr>) ts)"
  by (simp add: restore_terminal_def bread_line_def finish_def Let_def
      split: prod.splits option.splits loop_end.splits)

subsection \<open>Resolving the pending offset\<close>

text \<open>
  Claim C9. Whenever \<^verbatim>\<open>buffer_move_gap\<close> has resolved the pending offset, the offset
  is 0 and a second call returns the buffer as it is.
\<close>

theorem buffer_move_gap_idem:
  "buffer_move_gap b = Inr b' \<Longrightarrow> relpos b' = 0 \<and> buffer_move_gap b' = Inr b'"
  by (auto simp: buffer_move_gap_def Let_def split: if_splits sum.splits)

theorem buffer_move_gap_idem_witness:
  "buffer_move_gap \<lparr>mem = [1, 2, 3, 0], gap = 3, post = 4, endp = 4, relpos = - 2\<rparr>
     = Inr \<lparr>mem = [1, 2, 2, 3], gap = 1, post = 2, endp = 4, relpos = 0\<rparr>
   \<and> relpos \<lparr>mem = [1, 2, 2, 3], gap = 1, post = 2, endp = 4, relpos = 0\<rparr> = 0
   \<and> buffer_move_gap \<lparr>mem = [1, 2, 2, 3], gap = 1, post = 2, endp = 4, relpos = 0\<rparr>
     = Inr \<lparr>mem = [1, 2, 2, 3], gap = 1, post = 2, endp = 4, relpos = 0\<rparr>"
proof -
  have h: "buffer_move_gap \<lparr>mem = [1, 2, 3, 0], gap = 3, post = 4, endp = 4, relpos = - 2\<rparr>
     = Inr \<lparr>mem = [1, 2, 2, 3], gap = 1, post = 2, endp = 4, relpos = 0\<rparr>"
    by (simp add: buffer_move_gap_def memmove_def)
  from buffer_move_gap_idem [OF h] h show ?thesis by simp
qed

text \<open>
  In a well-formed buffer every pointer is a natural number below the size of the
  allocation.
\<close>

lemma buffer_nat_cases:
  assumes "well_formed b"
  obtains G P E m r where
    "b = \<lparr>mem = m, gap = int G, post = int P, endp = int E, relpos = r\<rparr>"
    "length m = E" "0 < E" "G \<le> P" "P \<le> E" "0 \<le> int G + r" "int P + r \<le> int E"
proof -
  from assms have g: "0 \<le> gap b" and p: "0 \<le> post b" and e: "0 \<le> endp b"
    by (auto simp: well_formed_def)
  have eq: "b = \<lparr>mem = mem b, gap = int (nat (gap b)), post = int (nat (post b)),
      endp = int (nat (endp b)), relpos = relpos b\<rparr>"
    using g p e by simp
  show thesis
    by (rule that [OF eq]) (use assms g p e in \<open>auto simp: well_formed_def\<close>)
qed

lemma move_gap_left:
  assumes "0 < k" "k \<le> G" "G \<le> P" "P \<le> length m"
  shows "buffer_move_gap
      \<lparr>mem = m, gap = int G, post = int P, endp = int (length m), relpos = - int k\<rparr>
    = Inr \<lparr>mem = take (P - k) m @ take k (drop (G - k) m) @ drop P m,
           gap = int (G - k), post = int (P - k), endp = int (length m), relpos = 0\<rparr>"
proof -
  have a: "nat (int P - int k) = P - k" "nat (int G - int k) = G - k" by simp_all
  show ?thesis using assms
    by (simp add: buffer_move_gap_def memmove_def Let_def a of_nat_diff)
qed

lemma move_gap_right:
  assumes "0 < k" "G \<le> P" "P + k \<le> length m"
  shows "buffer_move_gap
      \<lparr>mem = m, gap = int G, post = int P, endp = int (length m), relpos = int k\<rparr>
    = Inr \<lparr>mem = take G m @ take k (drop P m) @ drop (G + k) m,
           gap = int (G + k), post = int (P + k), endp = int (length m), relpos = 0\<rparr>"
  using assms by (simp add: buffer_move_gap_def memmove_def Let_def nat_add_distrib)

text \<open>
  In a well-formed buffer the resolution stays inside the allocation. It puts the gap
  at the cursor: the bytes before the gap are then the line up to the cursor and the
  bytes after it the rest of the line.
\<close>

lemma move_gap_wf:
  assumes "well_formed b"
  shows "\<exists>b'. buffer_move_gap b = Inr b' \<and> well_formed b' \<and> relpos b' = 0
     \<and> gap b' = cursor b \<and> endp b' = endp b \<and> post b' = post b + relpos b
     \<and> pre_run b' = take (nat (cursor b)) (line_of b)
     \<and> post_run b' = drop (nat (cursor b)) (line_of b)"
proof -
  from assms obtain G P E m r where
    b: "b = \<lparr>mem = m, gap = int G, post = int P, endp = int E, relpos = r\<rparr>"
    and len: "length m = E" and E: "0 < E" and GP: "G \<le> P" and PE: "P \<le> E"
    and lo: "0 \<le> int G + r" and hi: "int P + r \<le> int E"
    by (rule buffer_nat_cases)
  consider (zero) "r = 0" | (left) k where "r = - int k" "0 < k"
    | (right) k where "r = int k" "0 < k"
    by (cases r rule: int_cases3) auto
  then show ?thesis
  proof cases
    case zero
    then show ?thesis using len E GP PE
      by (simp add: b buffer_move_gap_def well_formed_def cursor_def pre_run_def
          post_run_def line_of_def)
  next
    case left
    with lo have kG: "k \<le> G" by simp
    have mv: "buffer_move_gap
        \<lparr>mem = m, gap = int G, post = int P, endp = int E, relpos = - int k\<rparr>
         = Inr \<lparr>mem = take (P - k) m @ take k (drop (G - k) m) @ drop P m,
           gap = int (G - k), post = int (P - k), endp = int E, relpos = 0\<rparr>"
      using move_gap_left [OF left(2) kG GP, of m] PE len by simp
    have dt: "drop (G - k) (take G m) = take k (drop (G - k) m)"
      using kG by (simp add: drop_take)
    have n: "nat (int G - int k) = G - k" by simp
    show ?thesis unfolding b left(1) mv
      using len E GP PE kG left(2)
      by (simp add: well_formed_def cursor_def pre_run_def post_run_def line_of_def dt n
          of_nat_diff)
  next
    case right
    with hi have Pk: "P + k \<le> E" by simp
    have mv: "buffer_move_gap
        \<lparr>mem = m, gap = int G, post = int P, endp = int E, relpos = int k\<rparr>
         = Inr \<lparr>mem = take G m @ take k (drop P m) @ drop (G + k) m,
           gap = int (G + k), post = int (P + k), endp = int E, relpos = 0\<rparr>"
      using move_gap_right [OF right(2) GP, of m] Pk len by simp
    have n: "nat (int G + int k) = G + k" "nat (int P + int k) = P + k" by simp_all
    show ?thesis unfolding b right(1) mv
      using len E GP PE Pk right(2)
      by (simp add: well_formed_def cursor_def pre_run_def post_run_def line_of_def n
          add.commute)
  qed
qed

lemma length_line_of:
  "well_formed b \<Longrightarrow>
     int (length (pre_run b)) = gap b \<and> int (length (post_run b)) = endp b - post b"
  by (auto simp: well_formed_def pre_run_def post_run_def)

lemma length_line:
  "well_formed b \<Longrightarrow> int (length (line_of b)) = gap b + (endp b - post b)"
  using length_line_of [of b] by (simp add: line_of_def)

subsection \<open>Insertion\<close>

lemma realloc_grow:
  assumes "length old \<le> n"
  shows "\<exists>m'. realloc old n (Some f) = Some m' \<and> length m' = n \<and> take (length old) m' = old"
proof -
  let ?m = "map (\<lambda>i. if i < length old then old ! i else f i) [0..<n]"
  have "take (length old) ?m = old"
    using assms by (intro nth_equalityI) auto
  then show ?thesis by (simp add: realloc_def)
qed

lemma store_ch_wf:
  assumes "int (length (mem b)) = endp b" "0 \<le> gap b" "gap b < post b" "post b \<le> endp b"
    "relpos b = 0"
  shows "\<exists>b'. store_ch b ch = Inr b' \<and> well_formed b' \<and> relpos b' = 0 \<and> endp b' = endp b
    \<and> post b' = post b \<and> gap b' = gap b + 1
    \<and> pre_run b' = pre_run b @ [ch] \<and> post_run b' = post_run b"
proof -
  define G where "G = nat (gap b)"
  define P where "P = nat (post b)"
  define E where "E = length (mem b)"
  have G: "gap b = int G" using assms(2) by (simp add: G_def)
  have P: "post b = int P" using assms(2,3) by (simp add: P_def)
  have E: "endp b = int E" using assms(1) by (simp add: E_def)
  have GP: "G < P" using assms(3) G P by simp
  have PE: "P \<le> E" using assms(4) P E by simp
  have len: "length (mem b) = E" using assms(1) E by simp
  have t: "take (Suc G) ((mem b)[G := ch]) = take G (mem b) @ [ch]"
    using GP PE len by (simp add: take_Suc_conv_app_nth)
  have n: "nat (int G + 1) = Suc G" by simp
  show ?thesis using GP PE len assms(5)
    by (simp add: store_ch_def G P E well_formed_def pre_run_def post_run_def t n)
qed

text \<open>
  An insertion into a well-formed buffer succeeds and puts the byte at the cursor when
  the gap has room, or when the buffer is full, the cursor is at the end of the text
  and \<^verbatim>\<open>realloc\<close> succeeds.
\<close>

lemma insertch_wf:
  assumes "well_formed b"
    and "gap b < post b \<or> (post b + relpos b = endp b \<and> a \<noteq> None)"
  shows "\<exists>b'. buffer_insertch a b ch = Inr (True, b') \<and> well_formed b' \<and> relpos b' = 0
     \<and> cursor b' = cursor b + 1
     \<and> pre_run b' = take (nat (cursor b)) (line_of b) @ [ch]
     \<and> post_run b' = drop (nat (cursor b)) (line_of b)
     \<and> (post b + relpos b = endp b \<longrightarrow> post b' = endp b')"
proof -
  from move_gap_wf [OF assms(1)] obtain b1 where mv: "buffer_move_gap b = Inr b1"
    and w1: "well_formed b1" and r1: "relpos b1 = 0" and g1: "gap b1 = cursor b"
    and e1: "endp b1 = endp b" and p1: "post b1 = post b + relpos b"
    and pre1: "pre_run b1 = take (nat (cursor b)) (line_of b)"
    and post1: "post_run b1 = drop (nat (cursor b)) (line_of b)"
    by blast
  show ?thesis
  proof (cases "gap b1 = post b1")
    case False
    then have lt: "gap b1 < post b1" using w1 by (simp add: well_formed_def)
    from w1 have "int (length (mem b1)) = endp b1" "0 \<le> gap b1" "post b1 \<le> endp b1"
      by (simp_all add: well_formed_def)
    from store_ch_wf [OF this(1,2) lt this(3) r1, of ch]
    obtain b2 where "store_ch b1 ch = Inr b2" "well_formed b2" "relpos b2 = 0"
      "gap b2 = gap b1 + 1" "pre_run b2 = pre_run b1 @ [ch]" "post_run b2 = post_run b1"
      "endp b2 = endp b1" "post b2 = post b1"
      by blast
    then show ?thesis using False mv g1 pre1 post1 e1 p1
      by (simp add: buffer_insertch_def cursor_def [of b2])
  next
    case True
    with assms(2) g1 p1 have full: "post b + relpos b = endp b" and a: "a \<noteq> None"
      by (auto simp: cursor_def)
    from a obtain f where f: "a = Some f" by auto
    define E where "E = length (mem b1)"
    have E: "endp b1 = int E" and len: "length (mem b1) = E" and E0: "0 < E"
      using w1 by (auto simp: well_formed_def E_def)
    have gE: "gap b1 = int E" and pE: "post b1 = int E" using True full p1 e1 E by simp_all
    from realloc_grow [of "mem b1" "2 * E" f] len
    obtain m' where re: "realloc (mem b1) (2 * E) (Some f) = Some m'"
      and l': "length m' = 2 * E" and tk: "take E m' = mem b1" by auto
    let ?b = "b1\<lparr>mem := m', gap := gap b1 - 0, post := int E * 2 + (endp b1 - post b1),
      endp := int E * 2\<rparr>"
    have n2: "nat (int E * 2) = 2 * E" by simp
    have st: "store_ch ?b ch = Inr (?b\<lparr>mem := m'[E := ch], gap := int E + 1\<rparr>)"
      using l' E0 by (simp add: store_ch_def gE)
    have ins: "buffer_insertch a b ch = Inr (True, ?b\<lparr>mem := m'[E := ch], gap := int E + 1\<rparr>)"
      using mv True st re by (simp add: buffer_insertch_def Let_def E f n2)
    define b2 where "b2 = ?b\<lparr>mem := m'[E := ch], gap := int E + 1\<rparr>"
    have sel: "mem b2 = m'[E := ch]" "gap b2 = int E + 1" "post b2 = int E * 2"
      "endp b2 = int E * 2" "relpos b2 = 0"
      using r1 E pE by (simp_all add: b2_def)
    have pr: "pre_run b1 = mem b1" using len by (simp add: pre_run_def gE)
    have po: "post_run b1 = []" using len by (simp add: post_run_def pE)
    have t: "take (Suc E) (m'[E := ch]) = mem b1 @ [ch]"
      using l' E0 tk by (simp add: take_Suc_conv_app_nth)
    have n: "nat (int E + 1) = Suc E" by simp
    have w2: "well_formed b2" using l' E0 by (simp add: well_formed_def sel)
    have c2: "cursor b2 = cursor b + 1" using g1 gE by (simp add: cursor_def [of b2] sel)
    have pre2: "pre_run b2 = take (nat (cursor b)) (line_of b) @ [ch]"
      unfolding pre1 [symmetric] pr by (simp add: pre_run_def sel n t)
    have post2: "post_run b2 = drop (nat (cursor b)) (line_of b)"
      unfolding post1 [symmetric] po using l' by (simp add: post_run_def sel n2)
    show ?thesis using ins w2 c2 pre2 post2 sel
      unfolding b2_def [symmetric] by simp
  qed
qed

text \<open>
  Claim C6, as the claim states it, fails. The session that reads 64 times \<^verbatim>\<open>a\<close> and
  a left arrow has a full, well-formed buffer with the pending offset -1. An insertion
  whose \<^verbatim>\<open>realloc\<close> fails returns false after it has resolved the offset: the
  pre-run was 64 bytes and is 63, the post-run was empty and holds one byte.
\<close>

theorem failed_insert_moves_the_gap:
  "bread_line good_env (replicate 64 (typed [97]) @ [typed [27, 91, 68]])
     = (Reading full_left, [TcGetAttr True, TcSetRaw True])
   \<and> well_formed full_left
   \<and> buffer_insertch None full_left 98
     = Inr (False, full_left\<lparr>gap := 63, post := 63, relpos := 0\<rparr>)
   \<and> pre_run full_left = replicate 64 97
   \<and> post_run full_left = []
   \<and> pre_run (full_left\<lparr>gap := 63, post := 63, relpos := 0\<rparr>) = replicate 63 97
   \<and> post_run (full_left\<lparr>gap := 63, post := 63, relpos := 0\<rparr>) = [97]"
  by code_simp

text \<open>
  Claim C6, amended. When an insertion into a well-formed buffer fails, the line and
  the cursor are what they were and the buffer is well-formed, so it can be used
  again or released. The buffer is as \<^verbatim>\<open>buffer_move_gap\<close> leaves it, the pending
  offset resolved: the pre-run is the line up to the cursor and the post-run the line
  from the cursor on. They are the runs of before when no offset was pending, the
  resolution being the identity then.
\<close>

theorem failed_insert_keeps_line:
  assumes "well_formed b" and "buffer_insertch a b ch = Inr (False, b')"
  shows "line_of b' = line_of b \<and> cursor b' = cursor b \<and> well_formed b' \<and> relpos b' = 0
     \<and> pre_run b' = take (nat (cursor b)) (line_of b)
     \<and> post_run b' = drop (nat (cursor b)) (line_of b)
     \<and> buffer_move_gap b = Inr b'"
proof -
  from move_gap_wf [OF assms(1)] obtain b1 where mv: "buffer_move_gap b = Inr b1"
    and w1: "well_formed b1" and r1: "relpos b1 = 0" and g1: "gap b1 = cursor b"
    and pre1: "pre_run b1 = take (nat (cursor b)) (line_of b)"
    and post1: "post_run b1 = drop (nat (cursor b)) (line_of b)"
    by blast
  have eq: "b' = b1"
    using assms(2) mv
    by (auto simp: buffer_insertch_def Let_def split: if_splits option.splits sum.splits)
  show ?thesis
    using w1 r1 g1 pre1 post1 mv
    by (simp add: eq line_of_def [of b1] cursor_def [of b1])
qed

theorem failed_insert_keeps_line_witness:
  "well_formed full_left
   \<and> buffer_insertch None full_left 98
     = Inr (False, full_left\<lparr>gap := 63, post := 63, relpos := 0\<rparr>)
   \<and> line_of (full_left\<lparr>gap := 63, post := 63, relpos := 0\<rparr>) = line_of full_left
   \<and> cursor (full_left\<lparr>gap := 63, post := 63, relpos := 0\<rparr>) = cursor full_left
   \<and> well_formed (full_left\<lparr>gap := 63, post := 63, relpos := 0\<rparr>)
   \<and> relpos (full_left\<lparr>gap := 63, post := 63, relpos := 0\<rparr>) = 0
   \<and> pre_run (full_left\<lparr>gap := 63, post := 63, relpos := 0\<rparr>)
     = take (nat (cursor full_left)) (line_of full_left)
   \<and> post_run (full_left\<lparr>gap := 63, post := 63, relpos := 0\<rparr>)
     = drop (nat (cursor full_left)) (line_of full_left)
   \<and> buffer_move_gap full_left = Inr (full_left\<lparr>gap := 63, post := 63, relpos := 0\<rparr>)"
proof -
  have h1: "well_formed full_left" by code_simp
  have h2: "buffer_insertch None full_left 98
     = Inr (False, full_left\<lparr>gap := 63, post := 63, relpos := 0\<rparr>)"
    by code_simp
  from failed_insert_keeps_line [OF h1 h2] h1 h2 show ?thesis by blast
qed

text \<open>
  Bytes typed at the end of the text, into a buffer with nothing after the cursor, all
  arrive, however many: the buffer grows as often as it must.
\<close>

lemma insert_bytes_at_end:
  assumes "well_formed b" "post b = endp b" "relpos b = 0"
  shows "\<exists>b'. insert_bytes b cs = Inr (Some b') \<and> well_formed b' \<and> post b' = endp b'
     \<and> relpos b' = 0 \<and> pre_run b' = pre_run b @ cs \<and> post_run b' = []"
  using assms
proof (induction cs arbitrary: b)
  case Nil
  then show ?case by (simp add: post_run_def well_formed_def)
next
  case (Cons c cs)
  have po: "post_run b = []" using Cons.prems by (simp add: post_run_def well_formed_def)
  have cu: "cursor b = gap b" using Cons.prems by (simp add: cursor_def)
  have ln: "take (nat (gap b)) (line_of b) = pre_run b"
    by (simp add: line_of_def po pre_run_def)
  have "gap b < post b \<or> (post b + relpos b = endp b \<and> zero_fill \<noteq> None)"
    using Cons.prems by (simp add: zero_fill_def)
  from insertch_wf [OF Cons.prems(1) this, of c]
  obtain b1 where i: "buffer_insertch zero_fill b c = Inr (True, b1)" and w: "well_formed b1"
    and r: "relpos b1 = 0" and p: "post b1 = endp b1" and pre: "pre_run b1 = pre_run b @ [c]"
    using Cons.prems(2,3) cu ln by auto
  from Cons.IH [OF w p r] obtain b' where "insert_bytes b1 cs = Inr (Some b')"
    "well_formed b'" "post b' = endp b'" "relpos b' = 0" "pre_run b' = pre_run b1 @ cs"
    "post_run b' = []"
    by blast
  then show ?case using i pre by simp
qed

lemma buffer_init_well_formed:
  assumes "buffer_init n a = Some b" and "0 < n"
  shows "well_formed b \<and> post b = endp b \<and> relpos b = 0 \<and> pre_run b = []
     \<and> line_of b = [] \<and> cursor b = 0"
  using assms
  by (auto simp: buffer_init_def malloc_def well_formed_def pre_run_def post_run_def
      line_of_def cursor_def split: option.splits)

text \<open>
  In particular 100 bytes typed into the fresh buffer of 64 bytes make the line of
  these 100 bytes, with the cursor after them.
\<close>

lemma typing_past_capacity:
  assumes "buffer_init BREAD_INITIAL_SIZE a = Some b"
  shows "\<exists>b'. insert_bytes b cs = Inr (Some b') \<and> well_formed b' \<and> line_of b' = cs
     \<and> cursor b' = int (length cs)"
proof -
  from buffer_init_well_formed [OF assms]
  have w: "well_formed b" "post b = endp b" "relpos b = 0"
    and e: "pre_run b = []" by (simp_all add: BREAD_INITIAL_SIZE_def)
  from insert_bytes_at_end [OF w, of cs] obtain b' where
    *: "insert_bytes b cs = Inr (Some b')" "well_formed b'" "post b' = endp b'"
    "relpos b' = 0" "pre_run b' = pre_run b @ cs" "post_run b' = []"
    by blast
  have "int (length (pre_run b')) = gap b'"
    using length_line_of [OF *(2)] by simp
  then have "cursor b' = int (length cs)"
    using *(4,5) e by (simp add: cursor_def)
  then show ?thesis using * e by (simp add: line_of_def)
qed

text \<open>
  Claim C5, at the failing input: 64 times \<^verbatim>\<open>a\<close>, a left arrow, then \<^verbatim>\<open>b\<close>. The
  buffer is full with one byte after the cursor, so the insertion grows it to 128
  bytes. It sets \<^verbatim>\<open>post\<close> to offset 129, past \<^verbatim>\<open>end\<close>, and leaves the byte after the
  cursor at offset 63, where the new byte is then stored over it: the pre-run is 63
  times \<^verbatim>\<open>a\<close> and \<^verbatim>\<open>b\<close>, and no post-run is left, where the string model has the
  last \<^verbatim>\<open>a\<close> after the \<^verbatim>\<open>b\<close>. The rendering that follows reads from \<^verbatim>\<open>post\<close>,
  outside the allocation.
\<close>

theorem growth_loses_text_after_cursor:
  "bread_line good_env (replicate 64 (typed [97]) @ [typed [27, 91, 68]])
     = (Reading full_left, [TcGetAttr True, TcSetRaw True])
   \<and> buffer_insertch zero_fill full_left 98 = Inr (True, grown_wrong)
   \<and> post grown_wrong = 129 \<and> endp grown_wrong = 128
   \<and> pre_run grown_wrong = replicate 63 97 @ [98]
   \<and> post_run grown_wrong = []
   \<and> model_run (replicate 64 (Insert 97) @ [MoveLeft, Insert 98])
     = (replicate 63 97 @ [98, 97], 64)
   \<and> fst (bread_line good_env (replicate 64 (typed [97]) @ [typed [27, 91, 68], typed [98]]))
     = Undefined"
  by code_simp

subsection \<open>The cursor\<close>

text \<open>A step left at the start of the text and a step right at its end do nothing.\<close>

lemma buffer_backwards_at_start: "cursor b = 0 \<Longrightarrow> buffer_backwards b = b"
  by (simp add: buffer_backwards_def cursor_def)

lemma buffer_forwards_at_end:
  "cursor b = gap b + (endp b - post b) \<Longrightarrow> buffer_forwards b = b"
  by (simp add: buffer_forwards_def cursor_def)

text \<open>
  The key for the end puts the cursor after the last byte. The key for the start puts
  it at the negated pending offset, which is the start only when nothing is pending.
\<close>

lemma end_cursor:
  assumes "well_formed b" "apply_key a b KEY_DOWN = Inr (Some b')"
  shows "cursor b' = int (length (pre_run b)) + int (length (post_run b))"
  using assms(2) length_line_of [OF assms(1)]
  by (auto simp: apply_key_def cursor_def key_defs)

lemma home_cursor: "apply_key a b KEY_UP = Inr (Some b') \<Longrightarrow> cursor b' = - relpos b"
  by (auto simp: apply_key_def cursor_def key_defs)

text \<open>
  Claim C3, at the failing input: \<^verbatim>\<open>a\<close>, \<^verbatim>\<open>b\<close>, a step left (Ctrl-B or the left
  arrow), then the key for the start (Ctrl-A or the up arrow). The pending offset was
  -1 and is -1 again, so the cursor is at offset 1, between \<^verbatim>\<open>a\<close> and \<^verbatim>\<open>b\<close>, where
  the string model has it at 0.
\<close>

theorem home_with_pending_offset:
  "bread_line good_env [typed [97], typed [98], typed [2], typed [1]]
     = (Reading home_pending, [TcGetAttr True, TcSetRaw True])
   \<and> bread_line good_env [typed [97], typed [98], typed [27, 91, 68], typed [27, 91, 65]]
     = (Reading home_pending, [TcGetAttr True, TcSetRaw True])
   \<and> cursor home_pending = 1
   \<and> model_run [Insert 97, Insert 98, MoveLeft, MoveToStart] = ([97, 98], 0)"
  by code_simp

text \<open>
  Claim C4, at the failing input: \<^verbatim>\<open>a\<close>, a step left, then Ctrl-U. The line is
  empty and the pending offset is still -1, so the cursor is at offset -1, outside
  the text. A byte typed next makes \<^verbatim>\<open>memmove\<close> read before the allocation.
\<close>

theorem kill_line_with_pending_offset:
  "bread_line good_env [typed [97], typed [2], typed [21]]
     = (Reading kill_pending, [TcGetAttr True, TcSetRaw True])
   \<and> cursor kill_pending = - 1
   \<and> int (length (pre_run kill_pending)) + int (length (post_run kill_pending)) = 0
   \<and> fst (bread_line good_env [typed [97], typed [2], typed [21], typed [120]]) = Undefined"
  by code_simp

subsection \<open>The buffer and the string\<close>

text \<open>
  One safe edit, sent as the bytes of its key to a well-formed buffer, leaves a
  well-formed buffer whose line and cursor are those of the string after the same
  edit.
\<close>

lemma refine_insert:
  assumes "well_formed b" "safe (Insert c) b"
  shows "\<exists>b'. edit_loop b [tick_of (Insert c)] = Waiting b' \<and> well_formed b'
      \<and> view b' = model_edit (Insert c) (view b)"
proof -
  from assms(2) have lit: "literal c"
    and room: "gap b < post b \<or> (post b + relpos b = endp b \<and> zero_fill \<noteq> None)"
    by (auto simp: zero_fill_def)
  from insertch_wf [OF assms(1) room, of c] obtain b' where
    i: "buffer_insertch zero_fill b c = Inr (True, b')" and w: "well_formed b'"
    and cu: "cursor b' = cursor b + 1"
    and pre: "pre_run b' = take (nat (cursor b)) (line_of b) @ [c]"
    and post: "post_run b' = drop (nat (cursor b)) (line_of b)"
    by blast
  have k: "apply_key (grow (typed [c])) b (char_int c) = Inr (Some b')"
    using apply_key_literal [OF lit, of zero_fill b] i by (simp add: typed_def)
  have n10: "char_int c \<noteq> 10" using lit by (simp add: literal_def)
  have lp: "edit_loop b [tick_of (Insert c)] = Waiting b'"
    using step_waiting [OF getkey_typed1 n10 k w] by simp
  have c0: "0 \<le> cursor b" using assms(1) by (simp add: well_formed_def cursor_def)
  have "view b' = model_edit (Insert c) (view b)"
    using cu pre post c0 by (simp add: view_def line_of_def [of b'] nat_add_distrib)
  with lp w show ?thesis by blast
qed

lemma refine_moves:
  assumes "well_formed b"
    and "e \<in> {MoveLeft, MoveRight, MoveToEnd} \<or> (e = MoveToStart \<and> relpos b = 0)"
  shows "\<exists>b'. edit_loop b [tick_of e] = Waiting b' \<and> well_formed b'
     \<and> view b' = model_edit e (view b)"
proof -
  note ll = length_line [OF assms(1)]
  have l2: "length (line_of b) = nat (gap b + (endp b - post b))" using ll by linarith
  consider "e = MoveLeft" | "e = MoveRight" | "e = MoveToEnd" | "e = MoveToStart" "relpos b = 0"
    using assms(2) by auto
  then show ?thesis
  proof cases
    case 1
    have w: "well_formed (buffer_backwards b)"
      using assms(1) by (auto simp: buffer_backwards_def well_formed_def)
    have "edit_loop b [tick_of e] = Waiting (buffer_backwards b)"
      unfolding 1 tick_of.simps
      by (rule step_waiting [OF getkey_arrows(4) _ _ w]) (simp_all add: apply_key_def key_defs)
    moreover note w
    moreover have "view (buffer_backwards b) = model_edit e (view b)"
      using assms(1) unfolding 1
      by (auto simp: buffer_backwards_def view_def cursor_def line_of_def pre_run_def post_run_def
          well_formed_def nat_diff_distrib)
    ultimately show ?thesis by blast
  next
    case 2
    have w: "well_formed (buffer_forwards b)"
      using assms(1) by (auto simp: buffer_forwards_def well_formed_def)
    have "edit_loop b [tick_of e] = Waiting (buffer_forwards b)"
      unfolding 2 tick_of.simps
      by (rule step_waiting [OF getkey_arrows(3) _ _ w]) (simp_all add: apply_key_def key_defs)
    moreover note w
    moreover have "line_of (buffer_forwards b) = line_of b"
      by (simp add: buffer_forwards_def line_of_def pre_run_def post_run_def)
    moreover have "nat (cursor (buffer_forwards b)) =
       (if nat (cursor b) < length (line_of b) then nat (cursor b) + 1 else nat (cursor b))"
      using assms(1) unfolding l2
      by (auto simp: buffer_forwards_def cursor_def well_formed_def)
    ultimately show ?thesis unfolding 2 by (auto simp: view_def)
  next
    case 3
    let ?b = "b\<lparr>relpos := endp b - post b\<rparr>"
    have w: "well_formed ?b"
      using assms(1) by (auto simp: well_formed_def)
    have "edit_loop b [tick_of e] = Waiting ?b"
      unfolding 3 tick_of.simps
      by (rule step_waiting [OF getkey_arrows(2) _ _ w]) (simp_all add: apply_key_def key_defs)
    moreover note w
    moreover have "view ?b = model_edit e (view b)"
      unfolding 3 using l2
      by (simp add: view_def cursor_def line_of_def pre_run_def post_run_def)
    ultimately show ?thesis by blast
  next
    case 4
    let ?b = "b\<lparr>relpos := 0 - gap b - relpos b\<rparr>"
    have w: "well_formed ?b"
      using assms(1) 4(2) by (auto simp: well_formed_def)
    have "edit_loop b [tick_of e] = Waiting ?b"
      unfolding 4(1) tick_of.simps
      by (rule step_waiting [OF getkey_arrows(1) _ _ w]) (simp_all add: apply_key_def key_defs)
    moreover note w
    moreover have "view ?b = model_edit e (view b)"
      unfolding 4(1) using 4(2)
      by (simp add: view_def cursor_def line_of_def pre_run_def post_run_def)
    ultimately show ?thesis by blast
  qed
qed

lemma refine_deletes:
  assumes "well_formed b"
    and "e \<in> {DeleteForward, DeleteBackward} \<or> (e = DeleteAll \<and> relpos b = 0)"
  shows "\<exists>b'. edit_loop b [tick_of e] = Waiting b' \<and> well_formed b'
     \<and> view b' = model_edit e (view b)"
proof -
  from move_gap_wf [OF assms(1)] obtain b1 where mv: "buffer_move_gap b = Inr b1"
    and w1: "well_formed b1" and r1: "relpos b1 = 0" and g1: "gap b1 = cursor b"
    and pre1: "pre_run b1 = take (nat (cursor b)) (line_of b)"
    and post1: "post_run b1 = drop (nat (cursor b)) (line_of b)"
    by blast
  note ln = length_line_of [OF w1]
  have c0: "0 \<le> cursor b" using assms(1) by (simp add: well_formed_def cursor_def)
  consider "e = DeleteForward" | "e = DeleteBackward" | "e = DeleteAll" "relpos b = 0"
    using assms(2) by auto
  then show ?thesis
  proof cases
    case 1
    let ?b = "if post b1 < endp b1 then b1\<lparr>post := post b1 + 1\<rparr> else b1"
    have w: "well_formed ?b"
      using w1 r1 by (auto simp: well_formed_def)
    have "edit_loop b [tick_of e] = Waiting ?b"
      unfolding 1 tick_of.simps
      by (rule step_waiting [OF getkey_typed1 _ _ w])
        (simp_all add: apply_key_def key_defs char_int_values buffer_delete_forwards_def mv typed_def)
    moreover note w
    moreover have "view ?b = model_edit e (view b)"
    proof -
      have p: "pre_run ?b = take (nat (cursor b)) (line_of b)"
        using pre1 by (simp add: pre_run_def)
      have "post_run ?b = drop 1 (post_run b1)"
        using w1 ln by (auto simp: post_run_def well_formed_def nat_add_distrib)
      then have q: "post_run ?b = drop (nat (cursor b) + 1) (line_of b)"
        using post1 by (simp add: add.commute)
      have l: "line_of ?b = take (nat (cursor b)) (line_of b) @ drop (nat (cursor b) + 1) (line_of b)"
        by (simp only: line_of_def [of ?b] p q)
      have c: "cursor ?b = cursor b" using r1 g1 by (simp add: cursor_def)
      show ?thesis unfolding 1 by (simp add: view_def l c)
    qed
    ultimately show ?thesis by blast
  next
    case 2
    let ?b = "if gap b1 > 0 then b1\<lparr>gap := gap b1 - 1\<rparr> else b1"
    have w: "well_formed ?b"
      using w1 r1 by (auto simp: well_formed_def)
    have "edit_loop b [tick_of e] = Waiting ?b"
      unfolding 2 tick_of.simps
      by (rule step_waiting [OF getkey_typed1 _ _ w])
        (simp_all add: apply_key_def key_defs char_int_values buffer_delete_backwards_def mv typed_def)
    moreover note w
    moreover have "view ?b = model_edit e (view b)"
    proof -
      have q: "post_run ?b = drop (nat (cursor b)) (line_of b)"
        using post1 by (simp add: post_run_def)
      have "pre_run ?b = take (nat (cursor b) - 1) (pre_run b1)"
        using g1 by (auto simp: pre_run_def nat_diff_distrib min_def)
      then have p: "pre_run ?b = take (nat (cursor b) - 1) (line_of b)"
        using pre1 by (simp add: min_def)
      have l: "line_of ?b = take (nat (cursor b) - 1) (line_of b) @ drop (nat (cursor b)) (line_of b)"
        by (simp only: line_of_def [of ?b] p q)
      have c: "nat (cursor ?b) = nat (cursor b) - 1"
        using r1 g1 c0 by (auto simp: cursor_def nat_diff_distrib)
      show ?thesis unfolding 2 by (simp add: view_def l c)
    qed
    ultimately show ?thesis by blast
  next
    case 3
    let ?b = "b\<lparr>gap := 0, post := endp b\<rparr>"
    have w: "well_formed ?b"
      using assms(1) 3(2) by (auto simp: well_formed_def)
    have "edit_loop b [tick_of e] = Waiting ?b"
      unfolding 3(1) tick_of.simps
      by (rule step_waiting [OF getkey_typed1 _ _ w])
        (simp_all add: apply_key_def key_defs char_int_values typed_def)
    moreover note w
    moreover have "view ?b = model_edit e (view b)"
      unfolding 3(1) using 3(2) assms(1)
      by (simp add: view_def cursor_def line_of_def pre_run_def post_run_def well_formed_def)
    ultimately show ?thesis by blast
  qed
qed

lemma safe_edit_refines:
  assumes "well_formed b" "safe e b"
  shows "\<exists>b'. edit_loop b [tick_of e] = Waiting b' \<and> well_formed b'
     \<and> view b' = model_edit e (view b)"
proof (cases e)
  case (Insert c)
  then show ?thesis using refine_insert assms by blast
next
  case MoveToStart
  then show ?thesis using refine_moves [OF assms(1), of e] assms(2) by simp
next
  case DeleteAll
  then show ?thesis using refine_deletes [OF assms(1), of e] assms(2) by simp
qed (use refine_moves [OF assms(1), of e] refine_deletes [OF assms(1), of e] in simp_all)

text \<open>So does a safe run of edits.\<close>

lemma safe_edits_refine:
  assumes "well_formed b" "safe_run b es"
  shows "\<exists>b'. edit_loop b (map tick_of es) = Waiting b' \<and> well_formed b'
     \<and> view b' = fold model_edit es (view b)"
  using assms
proof (induction es arbitrary: b)
  case Nil
  then show ?case by simp
next
  case (Cons e es)
  from Cons.prems(2) have s: "safe e b" by simp
  from safe_edit_refines [OF Cons.prems(1) s] obtain b1 where
    st: "edit_loop b [tick_of e] = Waiting b1" and w: "well_formed b1"
    and v: "view b1 = model_edit e (view b)" by blast
  from Cons.prems(2) st have "safe_run b1 es" by simp
  from Cons.IH [OF w this] obtain b' where "edit_loop b1 (map tick_of es) = Waiting b'"
    "well_formed b'" "view b' = fold model_edit es (view b1)" by blast
  then show ?case using edit_loop_step [OF st, of "map tick_of es"] v by simp
qed

text \<open>
  The end-to-end scenarios of the specification run as it says, and a run of edits
  with a step left, a jump to the end and a delete-all is safe in the fresh buffer.
\<close>

lemma scenarios:
  "fst (bread_line good_env (map typed [[104], [105], [10]])) = Line [104, 105]"
  "fst (bread_line good_env (map typed [[104], [105], [27, 91, 68], [120], [10]]))
     = Line [104, 120, 105]"
  "fst (bread_line good_env (map typed [[97], [98], [99], [127], [10]])) = Line [97, 98]"
  "fst (bread_line good_env (map typed [[97], [98], [1], [4], [10]])) = Line [98]"
  "fst (bread_line good_env (map typed [[120], [121], [122], [21], [113], [10]])) = Line [113]"
  "bread_line (good_env\<lparr>tcgetattr_ok := False\<rparr>) [typed [104], typed [10]]
     = (Null, [TcGetAttr False])"
  by code_simp+

lemma safe_run_example:
  "safe_run \<lparr>mem = replicate 64 0, gap = 0, post = 64, endp = 64, relpos = 0\<rparr>
     [Insert 104, Insert 105, MoveLeft, Insert 120, MoveToEnd, DeleteBackward, DeleteAll,
      Insert 113, MoveToStart, MoveRight, DeleteForward]"
  by code_simp

text \<open>
  Claim C1, at the failing input: \<^verbatim>\<open>a\<close>, \<^verbatim>\<open>b\<close>, the left arrow, the key for the
  start, then \<^verbatim>\<open>x\<close>. The key for the start leaves the cursor between \<^verbatim>\<open>a\<close> and
  \<^verbatim>\<open>b\<close>, so the pre-run followed by the post-run is \<^verbatim>\<open>axb\<close>, where the same edits
  make the string \<^verbatim>\<open>xab\<close>.
\<close>

theorem line_differs_from_string_model:
  "bread_line good_env (map tick_of [Insert 97, Insert 98, MoveLeft, MoveToStart, Insert 120])
     = (Reading home_insert, [TcGetAttr True, TcSetRaw True])
   \<and> pre_run home_insert @ post_run home_insert = [97, 120, 98]
   \<and> model_run [Insert 97, Insert 98, MoveLeft, MoveToStart, Insert 120]
     = ([120, 97, 98], 1)"
  by code_simp

subsection \<open>Keys that come from no keystroke\<close>

text \<open>
  A key that is the literal byte \<open>c\<close>, however the decoder came by it, puts \<open>c\<close>
  into the line of a well-formed buffer with room in its gap, and the loop goes on to
  the next read.
\<close>

lemma literal_key_step:
  assumes "well_formed b" "gap b < post b" "literal c"
    and "getkey (junk t) (rd t) = char_int c"
  shows "\<exists>b'. edit_loop b (t # ts) = edit_loop b' ts \<and> well_formed b'
     \<and> view b' = model_edit (Insert c) (view b)"
proof -
  have room: "gap b < post b \<or> (post b + relpos b = endp b \<and> grow t \<noteq> None)"
    using assms(2) by simp
  from insertch_wf [OF assms(1) room, of c] obtain b' where
    i: "buffer_insertch (grow t) b c = Inr (True, b')" and w: "well_formed b'"
    and cu: "cursor b' = cursor b + 1"
    and pre: "pre_run b' = take (nat (cursor b)) (line_of b) @ [c]"
    and post: "post_run b' = drop (nat (cursor b)) (line_of b)"
    by blast
  have k: "apply_key (grow t) b (char_int c) = Inr (Some b')"
    using apply_key_literal [OF assms(3), of "grow t" b] i by simp
  have n10: "char_int c \<noteq> 10" using assms(3) by (simp add: literal_def)
  have lp: "edit_loop b (t # ts) = edit_loop b' ts"
    using assms(4) n10 k render_ok_well_formed [OF w] by simp
  have c0: "0 \<le> cursor b" using assms(1) by (simp add: well_formed_def cursor_def)
  have "view b' = model_edit (Insert c) (view b)"
    using cu pre post c0 by (simp add: view_def line_of_def [of b'] nat_add_distrib)
  with lp w show ?thesis by blast
qed

text \<open>
  So the byte ESC of a read of one or two bytes lands in the line, at the cursor.
\<close>

lemma escape_lands_in_line:
  assumes "well_formed b" "gap b < post b" "bs \<noteq> []" "length bs < 3" "hd bs = 27"
  shows "\<exists>b'. edit_loop b (\<lparr>junk = jk, rd = Rd bs, grow = a\<rparr> # ts) = edit_loop b' ts
     \<and> well_formed b' \<and> view b' = model_edit (Insert 27) (view b)"
proof -
  have l: "literal 27" by (simp add: literal_def char_int_def)
  have g: "getkey (junk \<lparr>junk = jk, rd = Rd bs, grow = a\<rparr>)
       (rd \<lparr>junk = jk, rd = Rd bs, grow = a\<rparr>) = char_int 27"
    using getkey_short [OF assms(3,4), of jk] assms(5) by simp
  from literal_key_step [OF assms(1,2) l g] show ?thesis .
qed




end
